theory Spec2Isabelle
  imports Main "HOL-Library.Sublist"
begin

section \<open>The attribution aggregator of the multimodal agent\<close>

text \<open>
  The development embeds the parsing and scoring part of
  \<^verbatim>\<open>run_agent_and_get_attribution\<close> (lines 35 to 78 of the source): the text
  \<^verbatim>\<open>full_content\<close> returned by the agent is the input, the dictionary
  \<^verbatim>\<open>attribution_data\<close> is the output.

  A text is a list of characters. A \<^typ>\<open>char\<close> carries a code point below 256, so
  the texts covered are the Python strings whose code points are below 256; on these the
  string methods below are the ones of Python's \<^verbatim>\<open>str\<close>.
\<close>

subsection \<open>Python values\<close>

datatype pyval = PyInt int | PyStr string | PyList "string list"

type_synonym pydict = "(string \<times> pyval) list"

datatype error = ValueError

subsection \<open>String methods\<close>

text \<open>
  \<^verbatim>\<open>str.isspace\<close> on one character: the code points 9 to 13, 28 to 32, 133 and 160
  are the whitespace of Unicode below 256.
\<close>

definition isspace :: "char \<Rightarrow> bool" where
  "isspace c \<longleftrightarrow> (of_char c :: nat) \<in> {9, 10, 11, 12, 13, 28, 29, 30, 31, 32, 133, 160}"

text \<open>\<^verbatim>\<open>s.strip()\<close>: whitespace is removed at both ends, the left end first.\<close>

definition strip :: "string \<Rightarrow> string" where
  "strip s = rev (dropWhile isspace (rev (dropWhile isspace s)))"

text \<open>
  \<^verbatim>\<open>s.lower()\<close>: below 256 the characters with a lower-case form are A to Z
  (65 to 90) and the accented capitals 192 to 222 without the multiplication sign 215;
  the lower-case form is 32 code points further.
\<close>

definition lower_char :: "char \<Rightarrow> char" where
  "lower_char c =
     (let n = (of_char c :: nat)
      in if (65 \<le> n \<and> n \<le> 90) \<or> (192 \<le> n \<and> n \<le> 222 \<and> n \<noteq> 215)
         then char_of (n + 32) else c)"

definition lower :: "string \<Rightarrow> string" where
  "lower s = map lower_char s"

text \<open>
  \<^verbatim>\<open>s.split('\n')\<close>: the pieces between the line feeds, empty pieces kept; the
  empty text gives one empty piece.
\<close>

fun split_nl :: "string \<Rightarrow> string list" where
  "split_nl [] = [[]]"
| "split_nl (c # cs) =
     (if c = CHR 0x0A then [] # split_nl cs
      else (case split_nl cs of [] \<Rightarrow> [[c]] | l # ls \<Rightarrow> (c # l) # ls))"

subsection \<open>The section pattern\<close>

text \<open>
  The three searches use one pattern shape,
  \<^verbatim>\<open>\*\*HEADER:\*\*(.*?)(?=\*\*|\Z)\<close> with \<^verbatim>\<open>re.DOTALL\<close>. \<^verbatim>\<open>re.search\<close> tries the
  start positions from the left. At a position the literal header must match; after it the
  lazy group takes as few characters as possible (any character, line feeds too) until the
  lookahead holds, that is until two asterisks follow or the text ends. The lookahead
  holds at the end of the text, so the pattern matches wherever the header does, and the
  match found is the one at the leftmost header.

  \<open>after_header\<close> gives the text behind the leftmost header, \<open>lazy_capture\<close> the
  group, and \<open>re_search_section\<close> is \<^verbatim>\<open>group(1)\<close> of the match, or \<open>None\<close>
  when there is no match.
\<close>

fun after_header :: "string \<Rightarrow> string \<Rightarrow> string option" where
  "after_header h [] = (if h = [] then Some [] else None)"
| "after_header h (c # cs) =
     (if prefix h (c # cs) then Some (drop (length h) (c # cs)) else after_header h cs)"

fun lazy_capture :: "string \<Rightarrow> string" where
  "lazy_capture [] = []"
| "lazy_capture (c # cs) = (if prefix ''**'' (c # cs) then [] else c # lazy_capture cs)"

definition re_search_section :: "string \<Rightarrow> string \<Rightarrow> string option" where
  "re_search_section header s = map_option lazy_capture (after_header header s)"

subsection \<open>The random module\<close>

text \<open>
  The module-level generator of \<^verbatim>\<open>random\<close> is global state; it is passed in and
  handed back. Its state is the sequence of raw values it is going to yield (the value at
  index 0 is the next one), which is what a seed fixes. \<^verbatim>\<open>random.randint(a, b)\<close>
  raises \<^verbatim>\<open>ValueError\<close> on an empty range and otherwise returns an integer \<open>N\<close>
  with \<open>a \<le> N \<le> b\<close>, using up one raw value.
\<close>

type_synonym rng = "nat \<Rightarrow> nat"

definition randint :: "int \<Rightarrow> int \<Rightarrow> rng \<Rightarrow> error + (int \<times> rng)" where
  "randint a b g =
     (if b < a then Inl ValueError
      else Inr (a + int (g 0 mod nat (b - a + 1)), \<lambda>i. g (Suc i)))"

text \<open>The generator that yields the raw value \<open>r\<close> at every draw.\<close>

definition const_rng :: "nat \<Rightarrow> rng" where
  "const_rng r = (\<lambda>i. r)"

text \<open>The generator that yields \<open>r\<close>, then \<open>r + 1\<close>, and so on.\<close>

definition counting_rng :: "nat \<Rightarrow> rng" where
  "counting_rng r = (\<lambda>i. r + i)"

subsection \<open>The aggregator\<close>

definition search_content_found :: "string \<Rightarrow> bool" where
  "search_content_found full_content \<longleftrightarrow>
     sublist ''web search'' (lower full_content) \<or>
     sublist ''external sources'' (lower full_content)"

definition run_agent_and_get_attribution :: "string \<Rightarrow> rng \<Rightarrow> error + (pydict \<times> rng)" where
  "run_agent_and_get_attribution full_content g =
     (let visual_match = re_search_section ''**VISUAL FINDINGS:**'' full_content;
          search_match = re_search_section ''**RESEARCH FINDINGS:**'' full_content;
          answer_match = re_search_section ''**FINAL ANSWER:**'' full_content
      in case (if search_content_found full_content then randint 50 95 g
               else randint 5 50 g) of
           Inl e \<Rightarrow> Inl e
         | Inr (search_score, g') \<Rightarrow>
             (let visual_score = 100 - search_score;
                  visual_findings =
                    (case visual_match of Some m \<Rightarrow> strip m
                     | None \<Rightarrow> ''No specific visual findings detailed.'');
                  search_queries = [''(Query 1 - Simulated)'', ''(Query 2 - Simulated)''];
                  search_snippets =
                    [''(Snippet 1 from example.com)'', ''(Snippet 2 from example.org)''];
                  final_answer =
                    (case answer_match of Some m \<Rightarrow> strip m | None \<Rightarrow> full_content);
                  attribution_data =
                    [(''visual_score'', PyInt visual_score),
                     (''search_score'', PyInt search_score),
                     (''visual_findings'', PyList (split_nl visual_findings)),
                     (''search_queries'', PyList search_queries),
                     (''search_snippets'', PyList search_snippets),
                     (''final_answer'', PyStr final_answer)]
              in Inr (attribution_data, g')))"

text \<open>
  \<open>subscript r k\<close> reads \<^verbatim>\<open>attribution_data[k]\<close> from the outcome of a run;
  \<open>None\<close> stands for the \<^verbatim>\<open>KeyError\<close> of a missing key, and for a run that raised.
\<close>

definition subscript :: "error + (pydict \<times> rng) \<Rightarrow> string \<Rightarrow> pyval option" where
  "subscript r k = (case r of Inl e \<Rightarrow> None | Inr (d, g') \<Rightarrow> map_of d k)"

definition keys :: "error + (pydict \<times> rng) \<Rightarrow> string list" where
  "keys r = (case r of Inl e \<Rightarrow> [] | Inr (d, g') \<Rightarrow> map fst d)"

text \<open>
  The value that a run assigns to \<^verbatim>\<open>search_score\<close>: both ranges hold 46 integers.
\<close>

definition drawn_score :: "string \<Rightarrow> rng \<Rightarrow> int" where
  "drawn_score t g =
     (if search_content_found t then 50 + int (g 0 mod 46) else 5 + int (g 0 mod 46))"

subsection \<open>Notions of the specification\<close>

text \<open>
  A capital is a character with a lower-case form. Two characters are the same letter when
  they are equal or one is the capital of the other. A text contains a phrase ignoring
  case when some stretch of it is, letter by letter, the phrase.
\<close>

definition capital :: "char \<Rightarrow> bool" where
  "capital c \<longleftrightarrow>
     (let n = (of_char c :: nat)
      in (65 \<le> n \<and> n \<le> 90) \<or> (192 \<le> n \<and> n \<le> 222 \<and> n \<noteq> 215))"

definition same_letter :: "char \<Rightarrow> char \<Rightarrow> bool" where
  "same_letter a b \<longleftrightarrow>
     a = b \<or> (capital a \<and> (of_char b :: nat) = of_char a + 32)
           \<or> (capital b \<and> (of_char a :: nat) = of_char b + 32)"

definition contains_ignoring_case :: "string \<Rightarrow> string \<Rightarrow> bool" where
  "contains_ignoring_case phrase s \<longleftrightarrow>
     (\<exists>ps ms ss. s = ps @ ms @ ss \<and> list_all2 same_letter ms phrase)"

text \<open>\<^verbatim>\<open>'\n'.join(lines)\<close>, the inverse of splitting at line feeds.\<close>

fun join_nl :: "string list \<Rightarrow> string" where
  "join_nl [] = []"
| "join_nl [l] = l"
| "join_nl (l # ls) = l @ CHR 0x0A # join_nl ls"

text \<open>
  The section as the specification words it: the text behind the leftmost header up to the
  next of the three headers, or to the end of the text, without the whitespace at its ends.
\<close>

fun until_next_header :: "string \<Rightarrow> string" where
  "until_next_header [] = []"
| "until_next_header (c # cs) =
     (if prefix ''**VISUAL FINDINGS:**'' (c # cs) \<or> prefix ''**RESEARCH FINDINGS:**'' (c # cs)
         \<or> prefix ''**FINAL ANSWER:**'' (c # cs)
      then [] else c # until_next_header cs)"

definition section_between_headers :: "string \<Rightarrow> string \<Rightarrow> string option" where
  "section_between_headers header s =
     map_option (\<lambda>r. strip (until_next_header r)) (after_header header s)"

section \<open>Auxiliary facts\<close>

subsection \<open>The run, unfolded\<close>

lemma run_eq:
  "run_agent_and_get_attribution t g =
     Inr ([(''visual_score'', PyInt (100 - drawn_score t g)),
           (''search_score'', PyInt (drawn_score t g)),
           (''visual_findings'', PyList (split_nl
              (case re_search_section ''**VISUAL FINDINGS:**'' t of Some m \<Rightarrow> strip m
               | None \<Rightarrow> ''No specific visual findings detailed.''))),
           (''search_queries'', PyList [''(Query 1 - Simulated)'', ''(Query 2 - Simulated)'']),
           (''search_snippets'',
              PyList [''(Snippet 1 from example.com)'', ''(Snippet 2 from example.org)'']),
           (''final_answer'', PyStr
              (case re_search_section ''**FINAL ANSWER:**'' t of Some m \<Rightarrow> strip m
               | None \<Rightarrow> t))],
          \<lambda>i. g (Suc i))"
  by (simp add: run_agent_and_get_attribution_def randint_def drawn_score_def Let_def)

lemma drawn_score_bounds:
  "if search_content_found t then 50 \<le> drawn_score t g \<and> drawn_score t g \<le> 95
   else 5 \<le> drawn_score t g \<and> drawn_score t g \<le> 50"
proof -
  have "g 0 mod 46 < 46" by simp
  then show ?thesis unfolding drawn_score_def by auto
qed

subsection \<open>The section pattern\<close>

lemma after_header_None: "\<not> sublist h t \<Longrightarrow> after_header h t = None"
  by (induction t) (auto simp: sublist_Cons_right)

lemma after_header_Some:
  "sublist h t \<Longrightarrow> h \<noteq> [] \<Longrightarrow>
   \<exists>pre r. t = pre @ h @ r \<and> after_header h t = Some r \<and> \<not> sublist h (butlast (pre @ h))"
proof (induction t)
  case Nil
  then show ?case by simp
next
  case (Cons c cs)
  show ?case
  proof (cases "prefix h (c # cs)")
    case True
    then obtain r where r: "c # cs = h @ r" by (auto simp: prefix_def)
    have "\<not> sublist h (butlast h)"
      using Cons.prems(2) by (metis sublist_length_le length_butlast diff_less length_greater_0_conv not_le zero_less_one)
    moreover have "after_header h (c # cs) = Some (drop (length h) (c # cs))"
      using True by simp
    moreover have "drop (length h) (c # cs) = r"
      by (subst r) simp
    ultimately have "c # cs = [] @ h @ r \<and> after_header h (c # cs) = Some r \<and>
        \<not> sublist h (butlast ([] @ h))"
      using r by simp
    then show ?thesis by blast
  next
    case False
    with Cons.prems have "sublist h cs" by (simp add: sublist_Cons_right)
    from Cons.IH[OF this Cons.prems(2)] obtain pre r where
      pr: "cs = pre @ h @ r" "after_header h cs = Some r" "\<not> sublist h (butlast (pre @ h))"
      by blast
    have bl: "butlast ((c # pre) @ h) = c # butlast (pre @ h)"
      using Cons.prems(2) by simp
    have "\<not> prefix h (c # butlast (pre @ h))"
    proof
      assume "prefix h (c # butlast (pre @ h))"
      moreover have "prefix (c # butlast (pre @ h)) (c # cs)"
      proof -
        have "prefix (butlast (pre @ h)) (pre @ h)" by (rule prefixeq_butlast)
        moreover have "prefix (pre @ h) cs" using pr(1) by simp
        ultimately have "prefix (butlast (pre @ h)) cs" by (rule prefix_order.trans)
        then show ?thesis by simp
      qed
      ultimately have "prefix h (c # cs)" by (rule prefix_order.trans)
      with False show False by blast
    qed
    with pr(3) bl have "\<not> sublist h (butlast ((c # pre) @ h))"
      by (simp add: sublist_Cons_right)
    with pr(1,2) False have "c # cs = (c # pre) @ h @ r \<and> after_header h (c # cs) = Some r \<and>
        \<not> sublist h (butlast ((c # pre) @ h))"
      by simp
    then show ?thesis by blast
  qed
qed

lemma lazy_capture_split:
  "\<exists>rest. s = lazy_capture s @ rest \<and> (rest = [] \<or> prefix ''**'' rest) \<and>
     \<not> sublist ''**'' (lazy_capture s @ take 1 rest)"
proof (induction s)
  case Nil
  then show ?case by simp
next
  case (Cons c cs)
  show ?case
  proof (cases "prefix ''**'' (c # cs)")
    case True
    then have "c # cs = lazy_capture (c # cs) @ (c # cs) \<and> prefix ''**'' (c # cs) \<and>
        \<not> sublist ''**'' (lazy_capture (c # cs) @ take 1 (c # cs))"
      by (auto simp: sublist_Cons_right)
    then show ?thesis by blast
  next
    case False
    from Cons.IH obtain rest where
      r: "cs = lazy_capture cs @ rest" "rest = [] \<or> prefix ''**'' rest"
         "\<not> sublist ''**'' (lazy_capture cs @ take 1 rest)"
      by blast
    have "\<not> prefix ''**'' (c # lazy_capture cs @ take 1 rest)"
    proof
      assume a: "prefix ''**'' (c # lazy_capture cs @ take 1 rest)"
      have "prefix (lazy_capture cs @ take 1 rest) cs"
        by (subst (2) r(1)) (simp add: take_is_prefix)
      then have "prefix (c # lazy_capture cs @ take 1 rest) (c # cs)" by simp
      with a have "prefix ''**'' (c # cs)" by (rule prefix_order.trans)
      with False show False by blast
    qed
    with r(3) have ns: "\<not> sublist ''**'' ((c # lazy_capture cs) @ take 1 rest)"
      by (simp add: sublist_Cons_right)
    have lc: "lazy_capture (c # cs) = c # lazy_capture cs"
      by (simp only: lazy_capture.simps False if_False)
    have "c # cs = (c # lazy_capture cs) @ rest"
      using r(1) by simp
    with ns r(2) show ?thesis
      unfolding lc by blast
  qed
qed

subsection \<open>Letter case\<close>

lemma lower_char_capital:
  "capital c \<Longrightarrow> (of_char (lower_char c) :: nat) = of_char c + 32"
  by (auto simp: capital_def lower_char_def Let_def)

lemma lower_char_not_capital: "\<not> capital c \<Longrightarrow> lower_char c = c"
  by (auto simp: capital_def lower_char_def Let_def)

lemma lower_char_eq_iff:
  assumes "\<not> capital p"
  shows "lower_char x = p \<longleftrightarrow> same_letter x p"
proof (cases "capital x")
  case True
  have "lower_char x = p \<longleftrightarrow> (of_char (lower_char x) :: nat) = of_char p"
    by simp
  also have "\<dots> \<longleftrightarrow> (of_char p :: nat) = of_char x + 32"
    using lower_char_capital[OF True] by auto
  also have "\<dots> \<longleftrightarrow> same_letter x p"
    using True assms by (auto simp: same_letter_def)
  finally show ?thesis .
next
  case False
  then show ?thesis
    using assms by (auto simp: same_letter_def lower_char_not_capital)
qed

lemma map_lower_eq_iff:
  "\<forall>c\<in>set p. \<not> capital c \<Longrightarrow> map lower_char ms = p \<longleftrightarrow> list_all2 same_letter ms p"
proof (induction ms arbitrary: p)
  case Nil
  then show ?case by auto
next
  case (Cons m ms)
  then show ?case
    by (cases p) (auto simp: lower_char_eq_iff)
qed

lemma sublist_map_iff:
  "sublist p (map f s) \<longleftrightarrow> (\<exists>ps ms ss. s = ps @ ms @ ss \<and> map f ms = p)"
  unfolding sublist_def
  by (auto simp: map_eq_append_conv append_eq_map_conv) blast+

lemma contains_lower_iff:
  assumes "\<forall>c\<in>set p. \<not> capital c"
  shows "sublist p (lower s) \<longleftrightarrow> contains_ignoring_case p s"
  unfolding lower_def contains_ignoring_case_def sublist_map_iff
  using map_lower_eq_iff[OF assms] by simp

lemma phrases_lower_case:
  "\<forall>c\<in>set ''web search''. \<not> capital c" "\<forall>c\<in>set ''external sources''. \<not> capital c"
  by (simp_all add: capital_def)

subsection \<open>Lines and whitespace\<close>

lemma split_nl_not_Nil: "split_nl s \<noteq> []"
  by (induction s) (auto split: list.splits)

lemma join_nl_Cons_Cons: "join_nl ((c # l) # ls) = c # join_nl (l # ls)"
  by (cases ls) simp_all

lemma join_split_nl: "join_nl (split_nl s) = s"
proof (induction s)
  case Nil
  then show ?case by simp
next
  case (Cons c cs)
  obtain l ls where sp: "split_nl cs = l # ls"
    using split_nl_not_Nil[of cs] by (cases "split_nl cs") auto
  show ?case
  proof (cases "c = CHR 0x0A")
    case True
    with Cons sp show ?thesis by simp
  next
    case False
    with Cons sp show ?thesis by (simp add: join_nl_Cons_Cons)
  qed
qed

lemma split_nl_no_newline: "l \<in> set (split_nl s) \<Longrightarrow> CHR 0x0A \<notin> set l"
proof (induction s arbitrary: l)
  case Nil
  then show ?case by simp
next
  case (Cons c cs)
  then show ?case
    by (cases "split_nl cs") (auto split: if_splits)
qed

lemma rev_dropWhile_takeWhile:
  "xs = rev (dropWhile P (rev xs)) @ rev (takeWhile P (rev xs))"
proof -
  have "rev (takeWhile P (rev xs) @ dropWhile P (rev xs)) =
        rev (dropWhile P (rev xs)) @ rev (takeWhile P (rev xs))"
    by (rule rev_append)
  then show ?thesis by (simp only: takeWhile_dropWhile_id rev_rev_ident)
qed

lemma strip_decomp:
  "\<exists>l r. s = l @ strip s @ r \<and> (\<forall>c\<in>set l. isspace c) \<and> (\<forall>c\<in>set r. isspace c)"
proof -
  let ?d = "dropWhile isspace s"
  let ?l = "takeWhile isspace s"
  let ?r = "rev (takeWhile isspace (rev ?d))"
  have d: "?d = strip s @ ?r"
    unfolding strip_def by (rule rev_dropWhile_takeWhile)
  have "s = ?l @ ?d" by simp
  with d have "s = ?l @ strip s @ ?r" by simp
  moreover have "\<forall>c\<in>set ?l. isspace c" by (auto dest: set_takeWhileD)
  moreover have "\<forall>c\<in>set ?r. isspace c" by (auto dest: set_takeWhileD)
  ultimately show ?thesis by blast
qed

lemma strip_ends:
  assumes "strip s \<noteq> []"
  shows "\<not> isspace (hd (strip s)) \<and> \<not> isspace (last (strip s))"
proof -
  let ?d = "dropWhile isspace s"
  let ?e = "dropWhile isspace (rev ?d)"
  have e: "?e \<noteq> []" using assms by (simp add: strip_def)
  then have "\<not> isspace (hd ?e)" by (rule hd_dropWhile)
  moreover have "last (strip s) = hd ?e" using e by (simp add: strip_def last_rev)
  ultimately have l: "\<not> isspace (last (strip s))" by simp
  have d: "?d = strip s @ rev (takeWhile isspace (rev ?d))"
    unfolding strip_def by (rule rev_dropWhile_takeWhile)
  then have dn: "?d \<noteq> []" using assms by (metis append_is_Nil_conv)
  then have "\<not> isspace (hd ?d)" by (rule hd_dropWhile)
  moreover have "hd ?d = hd (strip s)" by (subst d) (simp add: assms)
  ultimately show ?thesis using l by simp
qed

subsection \<open>Reading the record\<close>

lemma subscript_run:
  "subscript (run_agent_and_get_attribution t g) ''visual_score'' = Some (PyInt (100 - drawn_score t g))"
  "subscript (run_agent_and_get_attribution t g) ''search_score'' = Some (PyInt (drawn_score t g))"
  "subscript (run_agent_and_get_attribution t g) ''visual_findings'' =
     Some (PyList (split_nl
        (case re_search_section ''**VISUAL FINDINGS:**'' t of Some m \<Rightarrow> strip m
         | None \<Rightarrow> ''No specific visual findings detailed.'')))"
  "subscript (run_agent_and_get_attribution t g) ''search_queries'' =
     Some (PyList [''(Query 1 - Simulated)'', ''(Query 2 - Simulated)''])"
  "subscript (run_agent_and_get_attribution t g) ''search_snippets'' =
     Some (PyList [''(Snippet 1 from example.com)'', ''(Snippet 2 from example.org)''])"
  "subscript (run_agent_and_get_attribution t g) ''final_answer'' =
     Some (PyStr (case re_search_section ''**FINAL ANSWER:**'' t of Some m \<Rightarrow> strip m
                  | None \<Rightarrow> t))"
  "subscript (run_agent_and_get_attribution t g) ''research_findings'' = None"
  by (simp_all add: run_eq subscript_def)

lemma keys_run:
  "keys (run_agent_and_get_attribution t g) =
     [''visual_score'', ''search_score'', ''visual_findings'', ''search_queries'',
      ''search_snippets'', ''final_answer'']"
  by (simp add: run_eq keys_def)

lemma re_search_section_None:
  "\<not> sublist h t \<Longrightarrow> re_search_section h t = None"
  by (simp add: re_search_section_def after_header_None)

lemma re_search_section_Some:
  assumes "sublist h t" and "h \<noteq> []"
  shows "\<exists>pre sec rest. t = pre @ h @ sec @ rest \<and> \<not> sublist h (butlast (pre @ h)) \<and>
           \<not> sublist ''**'' (sec @ take 1 rest) \<and> (rest = [] \<or> prefix ''**'' rest) \<and>
           re_search_section h t = Some sec"
proof -
  from after_header_Some[OF assms] obtain pre r where
    pr: "t = pre @ h @ r" "after_header h t = Some r" "\<not> sublist h (butlast (pre @ h))"
    by blast
  from lazy_capture_split[of r] obtain rest where
    rs: "r = lazy_capture r @ rest" "rest = [] \<or> prefix ''**'' rest"
        "\<not> sublist ''**'' (lazy_capture r @ take 1 rest)"
    by blast
  have "t = pre @ h @ lazy_capture r @ rest"
    using pr(1) rs(1) by simp
  moreover have "re_search_section h t = Some (lazy_capture r)"
    using pr(2) by (simp add: re_search_section_def)
  ultimately show ?thesis
    using pr(3) rs(2,3) by blast
qed

lemma strip_form:
  "\<exists>l r. s = l @ strip s @ r \<and> (\<forall>c\<in>set l. isspace c) \<and> (\<forall>c\<in>set r. isspace c) \<and>
     (strip s = [] \<or> (\<not> isspace (hd (strip s)) \<and> \<not> isspace (last (strip s))))"
  using strip_decomp[of s] strip_ends[of s] by blast

text \<open>
  The generator is handed back advanced by one raw value, so a second run that goes on
  from the state the first one left can draw another score.
\<close>

lemma run_advances_generator:
  "snd (projr (run_agent_and_get_attribution t g)) = (\<lambda>i. g (Suc i))"
  by (simp add: run_eq)

lemma successive_runs_may_differ:
  "subscript (run_agent_and_get_attribution [] (counting_rng 0)) ''search_score'' =
     Some (PyInt 5) \<and>
   subscript (run_agent_and_get_attribution []
       (snd (projr (run_agent_and_get_attribution [] (counting_rng 0))))) ''search_score'' =
     Some (PyInt 6)"
proof -
  have "\<not> search_content_found []"
    by (simp add: search_content_found_def lower_def)
  then show ?thesis
    by (simp add: subscript_run run_advances_generator drawn_score_def counting_rng_def)
qed

subsection \<open>Counting the raw values of a draw\<close>

lemma card_mod_class:
  assumes "j < 46"
  shows "card {r::nat. r < 46 * m \<and> r mod 46 = j} = m"
proof -
  have "{r::nat. r < 46 * m \<and> r mod 46 = j} = (\<lambda>k. 46 * k + j) ` {..<m}"
  proof (intro set_eqI iffI)
    fix r assume "r \<in> {r::nat. r < 46 * m \<and> r mod 46 = j}"
    then have r: "r < 46 * m" "r mod 46 = j" by auto
    have "r = 46 * (r div 46) + j" using r(2) mult_div_mod_eq[of 46 r] by simp
    moreover have "r div 46 < m" using r(1) by (simp add: less_mult_imp_div_less mult.commute)
    ultimately show "r \<in> (\<lambda>k. 46 * k + j) ` {..<m}" by blast
  next
    fix r assume "r \<in> (\<lambda>k. 46 * k + j) ` {..<m}"
    then obtain k where k: "k < m" "r = 46 * k + j" by auto
    have "46 * k + 46 \<le> 46 * m" using k(1) by simp
    then have "r < 46 * m" using k(2) assms by linarith
    moreover have "r mod 46 = j" using k(2) assms by simp
    ultimately show "r \<in> {r::nat. r < 46 * m \<and> r mod 46 = j}" by simp
  qed
  moreover have "inj_on (\<lambda>k::nat. 46 * k + j) {..<m}"
    by (simp add: inj_on_def)
  ultimately show ?thesis by (simp add: card_image)
qed

lemma drawn_score_const_rng_iff:
  assumes "if search_content_found t then 50 \<le> v \<and> v \<le> 95 else 5 \<le> v \<and> v \<le> 50"
  shows "drawn_score t (const_rng r) = v \<longleftrightarrow>
         r mod 46 = (if search_content_found t then nat (v - 50) else nat (v - 5))"
  using assms by (auto simp: drawn_score_def const_rng_def split: if_splits)

lemma equally_many_raw_values:
  assumes "if search_content_found t then 50 \<le> v \<and> v \<le> 95 else 5 \<le> v \<and> v \<le> 50"
  shows "card {r. r < 46 * m \<and>
           subscript (run_agent_and_get_attribution t (const_rng r)) ''search_score'' =
             Some (PyInt v)} = m"
proof -
  let ?j = "if search_content_found t then nat (v - 50) else nat (v - 5)"
  have j: "?j < 46" using assms by (auto split: if_splits)
  have "{r. r < 46 * m \<and>
           subscript (run_agent_and_get_attribution t (const_rng r)) ''search_score'' =
             Some (PyInt v)} = {r. r < 46 * m \<and> r mod 46 = ?j}"
    by (simp only: subscript_run option.inject pyval.inject drawn_score_const_rng_iff[OF assms])
  then show ?thesis using card_mod_class[OF j] by simp
qed

section \<open>The claims\<close>

subsection \<open>Scores\<close>

text \<open>
  Claim C1. For every input text and every state of the generator, the record holds an
  integer \<open>visual_score\<close> and an integer \<open>search_score\<close> whose sum is 100, both
  between 0 and 100.
\<close>

theorem scores_sum_to_100:
  "\<exists>vs ss. subscript (run_agent_and_get_attribution t g) ''visual_score'' = Some (PyInt vs) \<and>
     subscript (run_agent_and_get_attribution t g) ''search_score'' = Some (PyInt ss) \<and>
     vs + ss = 100 \<and> 0 \<le> vs \<and> vs \<le> 100 \<and> 0 \<le> ss \<and> ss \<le> 100"
proof -
  have "5 \<le> drawn_score t g \<and> drawn_score t g \<le> 95"
    using drawn_score_bounds[of t g] by (auto split: if_splits)
  then show ?thesis
    by (simp add: subscript_run)
qed

text \<open>
  Claim C10. For every input text and every state of the generator, both scores lie
  between 5 and 95: neither is ever 0 or 100.
\<close>

theorem scores_between_5_and_95:
  "\<exists>vs ss. subscript (run_agent_and_get_attribution t g) ''visual_score'' = Some (PyInt vs) \<and>
     subscript (run_agent_and_get_attribution t g) ''search_score'' = Some (PyInt ss) \<and>
     5 \<le> vs \<and> vs \<le> 95 \<and> 5 \<le> ss \<and> ss \<le> 95"
proof -
  have "5 \<le> drawn_score t g \<and> drawn_score t g \<le> 95"
    using drawn_score_bounds[of t g] by (auto split: if_splits)
  then show ?thesis
    by (simp add: subscript_run)
qed

subsection \<open>Fallbacks\<close>

text \<open>
  Claim C8. When the text does not contain the visual header, \<open>visual_findings\<close> is
  the list whose single element is the fallback sentence.
\<close>

theorem visual_fallback:
  assumes "\<not> sublist ''**VISUAL FINDINGS:**'' t"
  shows "subscript (run_agent_and_get_attribution t g) ''visual_findings'' =
           Some (PyList [''No specific visual findings detailed.''])"
  using re_search_section_None[OF assms] by (simp add: subscript_run)

theorem visual_fallback_witness:
  "\<not> sublist ''**VISUAL FINDINGS:**'' ''Just a plain description with no headers.'' \<and>
   subscript (run_agent_and_get_attribution ''Just a plain description with no headers.''
       (const_rng 3)) ''visual_findings'' =
     Some (PyList [''No specific visual findings detailed.''])"
proof -
  have h: "\<not> sublist ''**VISUAL FINDINGS:**'' ''Just a plain description with no headers.''"
    by code_simp
  from h visual_fallback[OF h] show ?thesis by blast
qed

text \<open>
  Claim C4 says that \<open>final_answer\<close> is never the empty string. The empty text is
  an input without the header of the final answer, and its \<open>final_answer\<close> is the
  whole text, which is empty.
\<close>

theorem final_answer_empty_counterexample:
  "subscript (run_agent_and_get_attribution [] (const_rng 0)) ''final_answer'' = Some (PyStr [])"
  by code_simp

text \<open>
  Claim C4, amended. When the text does not contain the header of the final answer,
  \<open>final_answer\<close> is the whole input text; it is then empty exactly when the input
  text is empty.
\<close>

theorem final_answer_fallback:
  assumes "\<not> sublist ''**FINAL ANSWER:**'' t"
  shows "subscript (run_agent_and_get_attribution t g) ''final_answer'' = Some (PyStr t) \<and>
         (subscript (run_agent_and_get_attribution t g) ''final_answer'' = Some (PyStr [])
            \<longleftrightarrow> t = [])"
  using re_search_section_None[OF assms] by (simp add: subscript_run)

theorem final_answer_fallback_witness:
  "\<not> sublist ''**FINAL ANSWER:**'' ''Just a plain description with no headers.'' \<and>
   subscript (run_agent_and_get_attribution ''Just a plain description with no headers.''
       (const_rng 3)) ''final_answer'' =
     Some (PyStr ''Just a plain description with no headers.'')"
proof -
  have h: "\<not> sublist ''**FINAL ANSWER:**'' ''Just a plain description with no headers.''"
    by code_simp
  from h final_answer_fallback[OF h] show ?thesis by blast
qed

text \<open>
  Claim C5. On every text the run raises nothing and returns a dictionary with all six
  keys: two integer scores that sum to 100 and lie between 0 and 100, the list of visual
  findings, the two fixed placeholder lists and the final answer. Without the visual
  header the visual findings are the fallback sentence, and without the header of the final
  answer the final answer is the whole text; the empty text and a text without headers are
  such inputs.
\<close>

theorem total_with_fallbacks:
  "\<exists>d g' vs ss vf fa.
     run_agent_and_get_attribution t g = Inr (d, g') \<and>
     d = [(''visual_score'', PyInt vs), (''search_score'', PyInt ss),
          (''visual_findings'', PyList vf),
          (''search_queries'', PyList [''(Query 1 - Simulated)'', ''(Query 2 - Simulated)'']),
          (''search_snippets'',
             PyList [''(Snippet 1 from example.com)'', ''(Snippet 2 from example.org)'']),
          (''final_answer'', PyStr fa)] \<and>
     vs + ss = 100 \<and> 0 \<le> vs \<and> vs \<le> 100 \<and> 0 \<le> ss \<and> ss \<le> 100 \<and>
     (\<not> sublist ''**VISUAL FINDINGS:**'' t \<longrightarrow> vf = [''No specific visual findings detailed.'']) \<and>
     (\<not> sublist ''**FINAL ANSWER:**'' t \<longrightarrow> fa = t)"
proof -
  have b: "5 \<le> drawn_score t g \<and> drawn_score t g \<le> 95"
    using drawn_score_bounds[of t g] by (auto split: if_splits)
  show ?thesis
    unfolding run_eq using b by (auto simp: re_search_section_None)
qed

theorem total_with_fallbacks_witness:
  "\<exists>g' vs ss.
     run_agent_and_get_attribution [] (const_rng 0) =
       Inr ([(''visual_score'', PyInt vs), (''search_score'', PyInt ss),
          (''visual_findings'', PyList [''No specific visual findings detailed.'']),
          (''search_queries'', PyList [''(Query 1 - Simulated)'', ''(Query 2 - Simulated)'']),
          (''search_snippets'',
             PyList [''(Snippet 1 from example.com)'', ''(Snippet 2 from example.org)'']),
          (''final_answer'', PyStr [])], g') \<and>
     vs + ss = 100"
proof -
  have "\<not> sublist ''**VISUAL FINDINGS:**'' []" "\<not> sublist ''**FINAL ANSWER:**'' []"
    by simp_all
  with total_with_fallbacks[of "[]" "const_rng 0"] show ?thesis
    by auto
qed

subsection \<open>The fields of the record\<close>

text \<open>
  Claim C7 says that the record has a field for the research findings. On the empty text
  the record has the six keys below, and none of them is for the research findings: reading
  \<open>research_findings\<close> finds no key.
\<close>

theorem no_research_findings_counterexample:
  "keys (run_agent_and_get_attribution [] (const_rng 0)) =
     [''visual_score'', ''search_score'', ''visual_findings'', ''search_queries'',
      ''search_snippets'', ''final_answer''] \<and>
   subscript (run_agent_and_get_attribution [] (const_rng 0)) ''research_findings'' = None"
  by code_simp

text \<open>
  Claim C7, amended. For every input text, with or without the research header, the
  record has exactly the keys \<open>visual_score\<close>, \<open>search_score\<close>,
  \<open>visual_findings\<close>, \<open>search_queries\<close>, \<open>search_snippets\<close> and
  \<open>final_answer\<close>, and no field for the research findings: \<^verbatim>\<open>search_match\<close> is
  computed and not used.
\<close>

theorem record_fields:
  "keys (run_agent_and_get_attribution t g) =
     [''visual_score'', ''search_score'', ''visual_findings'', ''search_queries'',
      ''search_snippets'', ''final_answer''] \<and>
   subscript (run_agent_and_get_attribution t g) ''research_findings'' = None"
  by (simp add: keys_run subscript_run)

subsection \<open>Determinism\<close>

text \<open>
  Claim C6. A seed fixes the state of the generator. Two runs on the same text whose
  generators agree on the next raw value, as two generators set from one seed do, return
  the same record: the same keys, and the same value under every key.
\<close>

theorem deterministic_given_seed:
  assumes "g1 0 = g2 0"
  shows "keys (run_agent_and_get_attribution t g1) = keys (run_agent_and_get_attribution t g2) \<and>
         (\<forall>k. subscript (run_agent_and_get_attribution t g1) k =
              subscript (run_agent_and_get_attribution t g2) k)"
proof -
  have "drawn_score t g1 = drawn_score t g2"
    using assms by (simp add: drawn_score_def)
  then show ?thesis
    by (simp add: run_eq keys_def subscript_def)
qed

theorem deterministic_given_seed_witness:
  "const_rng 7 0 = counting_rng 7 0 \<and>
   subscript (run_agent_and_get_attribution ''web search'' (const_rng 7)) ''search_score'' =
   subscript (run_agent_and_get_attribution ''web search'' (counting_rng 7)) ''search_score''"
proof -
  have h: "const_rng 7 0 = counting_rng 7 0" by (simp add: const_rng_def counting_rng_def)
  from h deterministic_given_seed[of "const_rng 7" "counting_rng 7" "''web search''", OF h]
  show ?thesis by blast
qed

subsection \<open>The tool-activity signal and the draw\<close>

text \<open>
  Claim C2. The signal \<^verbatim>\<open>search_content_found\<close> is true exactly when the text contains
  "web search" or "external sources" ignoring case. When it is true \<open>search_score\<close> is
  an integer from 50 to 95, when it is false an integer from 5 to 50; every integer of the
  range is drawn by some generator, and the raw values below any multiple of 46 give each
  integer of the range equally often, so that raw values without bias give a draw without
  bias.
\<close>

theorem tool_activity_signal_and_draw:
  "(search_content_found t \<longleftrightarrow>
      contains_ignoring_case ''web search'' t \<or> contains_ignoring_case ''external sources'' t) \<and>
   (\<exists>ss. subscript (run_agent_and_get_attribution t g) ''search_score'' = Some (PyInt ss) \<and>
      (if search_content_found t then 50 \<le> ss \<and> ss \<le> 95 else 5 \<le> ss \<and> ss \<le> 50)) \<and>
   (\<forall>v. (if search_content_found t then 50 \<le> v \<and> v \<le> 95 else 5 \<le> v \<and> v \<le> 50) \<longrightarrow>
      (\<exists>g'. subscript (run_agent_and_get_attribution t g') ''search_score'' = Some (PyInt v))) \<and>
   (\<forall>v m. (if search_content_found t then 50 \<le> v \<and> v \<le> 95 else 5 \<le> v \<and> v \<le> 50) \<longrightarrow>
      card {r. r < 46 * m \<and>
        subscript (run_agent_and_get_attribution t (const_rng r)) ''search_score'' =
          Some (PyInt v)} = m)"
proof -
  have a: "search_content_found t \<longleftrightarrow>
      contains_ignoring_case ''web search'' t \<or> contains_ignoring_case ''external sources'' t"
    unfolding search_content_found_def
    by (simp only: contains_lower_iff[OF phrases_lower_case(1)]
        contains_lower_iff[OF phrases_lower_case(2)])
  have b: "\<exists>ss. subscript (run_agent_and_get_attribution t g) ''search_score'' = Some (PyInt ss) \<and>
      (if search_content_found t then 50 \<le> ss \<and> ss \<le> 95 else 5 \<le> ss \<and> ss \<le> 50)"
    using drawn_score_bounds[of t g] by (simp add: subscript_run)
  have c: "\<forall>v. (if search_content_found t then 50 \<le> v \<and> v \<le> 95 else 5 \<le> v \<and> v \<le> 50) \<longrightarrow>
      (\<exists>g'. subscript (run_agent_and_get_attribution t g') ''search_score'' = Some (PyInt v))"
  proof (intro allI impI)
    fix v :: int
    assume v: "if search_content_found t then 50 \<le> v \<and> v \<le> 95 else 5 \<le> v \<and> v \<le> 50"
    define r where "r = (if search_content_found t then nat (v - 50) else nat (v - 5))"
    have "r < 46" using v by (auto simp: r_def split: if_splits)
    then have "drawn_score t (const_rng r) = v"
      using v by (auto simp: drawn_score_def const_rng_def r_def split: if_splits)
    then have "subscript (run_agent_and_get_attribution t (const_rng r)) ''search_score'' =
        Some (PyInt v)"
      by (simp add: subscript_run)
    then show "\<exists>g'. subscript (run_agent_and_get_attribution t g') ''search_score'' =
        Some (PyInt v)"
      by blast
  qed
  have d: "\<forall>v m. (if search_content_found t then 50 \<le> v \<and> v \<le> 95 else 5 \<le> v \<and> v \<le> 50) \<longrightarrow>
      card {r. r < 46 * m \<and>
        subscript (run_agent_and_get_attribution t (const_rng r)) ''search_score'' =
          Some (PyInt v)} = m"
    by (intro allI impI) (rule equally_many_raw_values)
  show ?thesis
    by (rule conjI[OF a conjI[OF b conjI[OF c d]]])
qed

theorem tool_activity_signal_and_draw_witness:
  "search_content_found ''Confirmed via Web Search.'' \<and>
   (contains_ignoring_case ''web search'' ''Confirmed via Web Search.'' \<or>
    contains_ignoring_case ''external sources'' ''Confirmed via Web Search.'') \<and>
   (\<exists>g'. subscript (run_agent_and_get_attribution ''Confirmed via Web Search.'' g') ''search_score''
      = Some (PyInt 95))"
proof -
  have s: "search_content_found ''Confirmed via Web Search.''"
    by code_simp
  from tool_activity_signal_and_draw[of "''Confirmed via Web Search.''" "const_rng 0"] s
  show ?thesis by auto
qed

subsection \<open>The extent of a section\<close>

text \<open>
  Claim C3 says that a section runs up to the next header or to the end of the text. In
  the text below the final answer holds a word in bold: the run stops in front of it, while
  the text up to the next header, which here is the end, goes on.
\<close>

theorem section_between_headers_counterexample:
  "sublist ''**FINAL ANSWER:**'' ''**FINAL ANSWER:**It is **not** red.'' \<and>
   subscript (run_agent_and_get_attribution ''**FINAL ANSWER:**It is **not** red.'' (const_rng 0))
     ''final_answer'' = Some (PyStr ''It is'') \<and>
   section_between_headers ''**FINAL ANSWER:**'' ''**FINAL ANSWER:**It is **not** red.'' =
     Some ''It is **not** red.''"
  by code_simp

text \<open>
  Claim C3, amended. When the text contains the header of a section, the match of that
  section starts behind the leftmost occurrence of the header and ends in front of the next
  two asterisks, whether they open a header or not, or at the end of the text when none
  follow; the captured text holds no two asterisks in a row, so it never goes across a
  header. The visual findings are the lines of the captured text without the whitespace
  at its two ends, and the final answer is the captured text without that whitespace.
\<close>

theorem section_up_to_next_bold_marker:
  assumes "h = ''**VISUAL FINDINGS:**'' \<or> h = ''**RESEARCH FINDINGS:**'' \<or> h = ''**FINAL ANSWER:**''"
    and "sublist h t"
  shows "\<exists>pre sec rest l r.
           t = pre @ h @ sec @ rest \<and> \<not> sublist h (butlast (pre @ h)) \<and>
           \<not> sublist ''**'' (sec @ take 1 rest) \<and> (rest = [] \<or> prefix ''**'' rest) \<and>
           re_search_section h t = Some sec \<and>
           sec = l @ strip sec @ r \<and> (\<forall>c\<in>set l. isspace c) \<and> (\<forall>c\<in>set r. isspace c) \<and>
           (strip sec = [] \<or> (\<not> isspace (hd (strip sec)) \<and> \<not> isspace (last (strip sec)))) \<and>
           (h = ''**VISUAL FINDINGS:**'' \<longrightarrow>
              subscript (run_agent_and_get_attribution t g) ''visual_findings'' =
                Some (PyList (split_nl (strip sec)))) \<and>
           (h = ''**FINAL ANSWER:**'' \<longrightarrow>
              subscript (run_agent_and_get_attribution t g) ''final_answer'' =
                Some (PyStr (strip sec)))"
proof -
  have "h \<noteq> []" using assms(1) by auto
  from re_search_section_Some[OF assms(2) this] obtain pre sec rest where
    a: "t = pre @ h @ sec @ rest" "\<not> sublist h (butlast (pre @ h))"
       "\<not> sublist ''**'' (sec @ take 1 rest)" "rest = [] \<or> prefix ''**'' rest"
       "re_search_section h t = Some sec"
    by blast
  from strip_form[of sec] obtain l r where
    b: "sec = l @ strip sec @ r" "\<forall>c\<in>set l. isspace c" "\<forall>c\<in>set r. isspace c"
       "strip sec = [] \<or> (\<not> isspace (hd (strip sec)) \<and> \<not> isspace (last (strip sec)))"
    by blast
  have v: "h = ''**VISUAL FINDINGS:**'' \<longrightarrow>
      subscript (run_agent_and_get_attribution t g) ''visual_findings'' =
        Some (PyList (split_nl (strip sec)))"
    using a(5) by (auto simp: subscript_run)
  have f: "h = ''**FINAL ANSWER:**'' \<longrightarrow>
      subscript (run_agent_and_get_attribution t g) ''final_answer'' = Some (PyStr (strip sec))"
    using a(5) by (auto simp: subscript_run)
  from a b v f show ?thesis by blast
qed

theorem section_up_to_next_bold_marker_witness:
  "sublist ''**FINAL ANSWER:**'' ''**FINAL ANSWER:** It is **not** red.'' \<and>
   (\<exists>sec. re_search_section ''**FINAL ANSWER:**'' ''**FINAL ANSWER:** It is **not** red.'' = Some sec \<and>
      \<not> sublist ''**'' sec \<and>
      subscript (run_agent_and_get_attribution ''**FINAL ANSWER:** It is **not** red.'' (const_rng 0))
        ''final_answer'' = Some (PyStr (strip sec)))"
proof -
  have h: "sublist ''**FINAL ANSWER:**'' ''**FINAL ANSWER:** It is **not** red.''"
    by code_simp
  have k: "''**FINAL ANSWER:**'' = ''**VISUAL FINDINGS:**'' \<or>
           ''**FINAL ANSWER:**'' = ''**RESEARCH FINDINGS:**'' \<or>
           ''**FINAL ANSWER:**'' = ''**FINAL ANSWER:**''"
    by simp
  from section_up_to_next_bold_marker[OF k h, of "const_rng 0"] obtain sec rest where
    "\<not> sublist ''**'' (sec @ take 1 rest)"
    "re_search_section ''**FINAL ANSWER:**'' ''**FINAL ANSWER:** It is **not** red.'' = Some sec"
    "subscript (run_agent_and_get_attribution ''**FINAL ANSWER:** It is **not** red.'' (const_rng 0))
        ''final_answer'' = Some (PyStr (strip sec))"
    by blast
  moreover from this(1) have "\<not> sublist ''**'' sec"
    by (auto simp: sublist_append)
  ultimately show ?thesis using h by blast
qed

subsection \<open>The lines of the visual findings\<close>

text \<open>
  Claim C9. When the text contains the visual header, \<open>visual_findings\<close> is the list
  of the lines of the captured section, without the whitespace at the two ends of the
  section: no element holds a line feed, and putting a line feed between the elements
  gives the section back, so the lines are in their order and an empty line inside the
  section is an empty element at its place.
\<close>

theorem visual_findings_lines:
  assumes "sublist ''**VISUAL FINDINGS:**'' t"
  shows "\<exists>sec vf. re_search_section ''**VISUAL FINDINGS:**'' t = Some sec \<and>
           subscript (run_agent_and_get_attribution t g) ''visual_findings'' = Some (PyList vf) \<and>
           vf = split_nl (strip sec) \<and> join_nl vf = strip sec \<and>
           (\<forall>l\<in>set vf. CHR 0x0A \<notin> set l)"
proof -
  have "''**VISUAL FINDINGS:**'' \<noteq> []" by simp
  from re_search_section_Some[OF assms this] obtain sec where
    s: "re_search_section ''**VISUAL FINDINGS:**'' t = Some sec"
    by blast
  then have "subscript (run_agent_and_get_attribution t g) ''visual_findings'' =
      Some (PyList (split_nl (strip sec)))"
    by (simp add: subscript_run)
  with s show ?thesis
    using join_split_nl[of "strip sec"] split_nl_no_newline[of _ "strip sec"] by blast
qed

theorem visual_findings_lines_witness:
  "sublist ''**VISUAL FINDINGS:**''
     ''**VISUAL FINDINGS:**\<newline>A red car.\<newline>\<newline>Two doors.\<newline>**FINAL ANSWER:** A coupe.'' \<and>
   subscript (run_agent_and_get_attribution
     ''**VISUAL FINDINGS:**\<newline>A red car.\<newline>\<newline>Two doors.\<newline>**FINAL ANSWER:** A coupe.''
     (const_rng 0)) ''visual_findings'' = Some (PyList [''A red car.'', [], ''Two doors.'']) \<and>
   (\<exists>sec. re_search_section ''**VISUAL FINDINGS:**''
       ''**VISUAL FINDINGS:**\<newline>A red car.\<newline>\<newline>Two doors.\<newline>**FINAL ANSWER:** A coupe.'' = Some sec \<and>
      join_nl [''A red car.'', [], ''Two doors.''] = strip sec)"
proof -
  let ?t = "''**VISUAL FINDINGS:**\<newline>A red car.\<newline>\<newline>Two doors.\<newline>**FINAL ANSWER:** A coupe.''"
  have h: "sublist ''**VISUAL FINDINGS:**'' ?t"
    by code_simp
  have e: "subscript (run_agent_and_get_attribution ?t (const_rng 0)) ''visual_findings'' =
      Some (PyList [''A red car.'', [], ''Two doors.''])"
    by code_simp
  from visual_findings_lines[OF h, of "const_rng 0"] obtain sec vf where
    "re_search_section ''**VISUAL FINDINGS:**'' ?t = Some sec"
    "subscript (run_agent_and_get_attribution ?t (const_rng 0)) ''visual_findings'' = Some (PyList vf)"
    "join_nl vf = strip sec"
    by blast
  with e h show ?thesis by auto
qed

end
